theory Spec2Isabelle
  imports Main "HOL-Library.AList" "HOL-Library.Sublist"
begin

section \<open>Values\<close>

text \<open>
  Everything the handler touches is decoded JSON: the S3 notification, the CloudTrail
  batch, each sub-event. A Python dict keeps its keys in insertion order and has every key
  once, so a mapping node is an association list; \<open>wf_json\<close> states that its keys are
  distinct. Numbers are integers here; the code never computes with a number, it only stores
  it as a leaf.
\<close>

datatype json =
    JNull
  | JBool bool
  | JNum int
  | JStr string
  | JList "json list"
  | JDict "(string \<times> json) list"

fun wf_json :: "json \<Rightarrow> bool" where
  "wf_json (JDict kvs) = (distinct (map fst kvs) \<and> list_all (\<lambda>kv. wf_json (snd kv)) kvs)"
| "wf_json (JList xs) = list_all wf_json xs"
| "wf_json v = True"

section \<open>flatten\_json\<close>

text \<open>Python's \<open>str(i)\<close> for a list index: the decimal digits, most significant first.\<close>

definition digit_char :: "nat \<Rightarrow> char" where
  "digit_char d = ''0123456789'' ! d"

fun str :: "nat \<Rightarrow> string" where
  "str n = (if n < 10 then [digit_char n] else str (n div 10) @ [digit_char (n mod 10)])"

declare str.simps [simp del]

text \<open>
  \<open>flatten\<close> is the inner closure of \<open>flatten_json\<close>; the dict \<open>out\<close> it mutates is passed
  in and returned. \<open>out[k] = v\<close> on a Python dict replaces the value of a key that is
  present, without moving it, and appends a new key at the end: that is \<open>AList.update\<close>.
  \<open>name[:-1]\<close> is \<open>butlast name\<close>, also on the empty string.
\<close>

fun flatten :: "json \<Rightarrow> string \<Rightarrow> (string \<times> json) list \<Rightarrow> (string \<times> json) list"
  and flatten_dict :: "(string \<times> json) list \<Rightarrow> string \<Rightarrow> (string \<times> json) list \<Rightarrow> (string \<times> json) list"
  and flatten_list :: "json list \<Rightarrow> nat \<Rightarrow> string \<Rightarrow> (string \<times> json) list \<Rightarrow> (string \<times> json) list"
where
  "flatten (JDict kvs) name out = flatten_dict kvs name out"
| "flatten (JList xs) name out = flatten_list xs 0 name out"
| "flatten JNull name out = AList.update (butlast name) JNull out"
| "flatten (JBool b) name out = AList.update (butlast name) (JBool b) out"
| "flatten (JNum n) name out = AList.update (butlast name) (JNum n) out"
| "flatten (JStr s) name out = AList.update (butlast name) (JStr s) out"
| "flatten_dict [] name out = out"
| "flatten_dict ((a, x) # kvs) name out = flatten_dict kvs name (flatten x (name @ a @ ''.'') out)"
| "flatten_list [] i name out = out"
| "flatten_list (a # xs) i name out = flatten_list xs (i + 1) name (flatten a (name @ str i @ ''.'') out)"

definition flatten_json :: "json \<Rightarrow> (string \<times> json) list" where
  "flatten_json y = flatten y [] []"

text \<open>
  The description of the traversal, written independently of the code: the leaves of a
  structure in depth-first order, each with the list of segments that leads to it (a key
  of a mapping, the decimal index of a sequence element), and the dotted name of such a
  path: every segment followed by a dot, the last dot removed.
\<close>

fun leaves :: "json \<Rightarrow> (string list \<times> json) list"
  and leaves_dict :: "(string \<times> json) list \<Rightarrow> (string list \<times> json) list"
  and leaves_list :: "json list \<Rightarrow> nat \<Rightarrow> (string list \<times> json) list"
where
  "leaves (JDict kvs) = leaves_dict kvs"
| "leaves (JList xs) = leaves_list xs 0"
| "leaves JNull = [([], JNull)]"
| "leaves (JBool b) = [([], JBool b)]"
| "leaves (JNum n) = [([], JNum n)]"
| "leaves (JStr s) = [([], JStr s)]"
| "leaves_dict [] = []"
| "leaves_dict ((a, x) # kvs) = map (\<lambda>(p, v). (a # p, v)) (leaves x) @ leaves_dict kvs"
| "leaves_list [] i = []"
| "leaves_list (a # xs) i = map (\<lambda>(p, v). (str i # p, v)) (leaves a) @ leaves_list xs (i + 1)"

definition path_prefix :: "string list \<Rightarrow> string" where
  "path_prefix p = concat (map (\<lambda>s. s @ ''.'') p)"

definition dotted :: "string list \<Rightarrow> string" where
  "dotted p = butlast (path_prefix p)"

definition record_all :: "(string \<times> json) list \<Rightarrow> (string \<times> json) list \<Rightarrow> (string \<times> json) list" where
  "record_all ws out = foldl (\<lambda>acc (k, v). AList.update k v acc) out ws"

definition paths :: "json \<Rightarrow> string list list" where
  "paths x = map fst (leaves x)"

definition paths_dict :: "(string \<times> json) list \<Rightarrow> string list list" where
  "paths_dict kvs = map fst (leaves_dict kvs)"

definition paths_list :: "json list \<Rightarrow> nat \<Rightarrow> string list list" where
  "paths_list xs i = map fst (leaves_list xs i)"

text \<open>No key of any mapping in the structure contains the separator.\<close>

fun dot_free :: "json \<Rightarrow> bool" where
  "dot_free (JDict kvs) = list_all (\<lambda>kv. CHR ''.'' \<notin> set (fst kv) \<and> dot_free (snd kv)) kvs"
| "dot_free (JList xs) = list_all dot_free xs"
| "dot_free v = True"

section \<open>Python operations on decoded JSON\<close>

text \<open>
  The handler subscripts, tests membership in and iterates over values whose shape it never
  checks, so each of these operations either yields a value or raises. \<open>OtherError\<close> stands
  for any exception raised by a collaborator (the rule evaluator, the object store, the
  webhook), named by its text.
\<close>

datatype exn =
    KeyError string
  | TypeError
  | AttributeError
  | AssertionError
  | OtherError string

text \<open>\<open>x[k]\<close> for a string \<open>k\<close>: only a dict can be subscripted by a string.\<close>

fun getitem :: "json \<Rightarrow> string \<Rightarrow> exn + json" where
  "getitem (JDict kvs) k = (case map_of kvs k of Some v \<Rightarrow> Inr v | None \<Rightarrow> Inl (KeyError k))"
| "getitem v k = Inl TypeError"

text \<open>\<open>x[k1][k2]...\<close>, left to right.\<close>

fun getpath :: "json \<Rightarrow> string list \<Rightarrow> exn + json" where
  "getpath x [] = Inr x"
| "getpath x (k # ks) = (case getitem x k of Inl e \<Rightarrow> Inl e | Inr v \<Rightarrow> getpath v ks)"

text \<open>\<open>k in s\<close> for two strings: \<open>k\<close> occurs in \<open>s\<close> as a contiguous substring.\<close>

fun substring :: "string \<Rightarrow> string \<Rightarrow> bool" where
  "substring k [] = (k = [])"
| "substring k (c # s) = (prefix k (c # s) \<or> substring k s)"

text \<open>
  \<open>k in x\<close> for a string \<open>k\<close>: a key of a dict, an element of a list, a substring of a
  string; any other value is not iterable.
\<close>

fun contains :: "string \<Rightarrow> json \<Rightarrow> exn + bool" where
  "contains k (JDict kvs) = Inr (k \<in> set (map fst kvs))"
| "contains k (JList xs) = Inr (JStr k \<in> set xs)"
| "contains k (JStr s) = Inr (substring k s)"
| "contains k v = Inl TypeError"

text \<open>\<open>x.startswith(p)\<close>: only a string has the method.\<close>

fun startswith :: "json \<Rightarrow> string \<Rightarrow> exn + bool" where
  "startswith (JStr s) p = Inr (prefix p s)"
| "startswith v p = Inl AttributeError"

text \<open>
  \<open>for a in x\<close>: the elements of a list, the keys of a dict, the characters of a string;
  any other value is not iterable.
\<close>

fun iterate :: "json \<Rightarrow> exn + json list" where
  "iterate (JList xs) = Inr xs"
| "iterate (JDict kvs) = Inr (map (\<lambda>kv. JStr (fst kv)) kvs)"
| "iterate (JStr s) = Inr (map (\<lambda>c. JStr [c]) s)"
| "iterate v = Inl TypeError"

section \<open>Collaborators and effects\<close>

text \<open>
  Modelled from the spec: \<open>slack_helpers\<close> is not among the sources. Section 4.5 names the
  message variants the core needs; a message is kept symbolic here, as the name of its builder
  applied to the arguments the code passes.
\<close>

datatype message =
    event_to_slack_message json json json
  | message_for_rule_evaluation_error_notification exn json string
  | message_for_slack_error_notification exn json

text \<open>
  What the code does to the outside, in the order it does it: it evaluates a rule expression
  against a flattened event, it fetches an object (bucket, key), it posts a message with an
  account id. Logging is left out.
\<close>

datatype effect =
    Eval string "(string \<times> json) list"
  | GetObject json string
  | PostMessage message json

text \<open>
  The collaborators the code calls: Python's \<open>eval\<close> of a rule with \<open>event\<close> bound to
  the flattened event (a value or an exception; rule expressions are taken to be free of side
  effects), \<open>urllib.parse.unquote_plus\<close>, the fetch of an object with its decompression
  and JSON decoding (lines 111 to 114), and the webhook, which per section 4.5 of the spec
  may fail.
\<close>

record world =
  py_eval :: "string \<Rightarrow> (string \<times> json) list \<Rightarrow> exn + json"
  unquote_plus :: "string \<Rightarrow> string"
  s3_get_object :: "json \<Rightarrow> string \<Rightarrow> exn + json"
  post_fails :: "message \<Rightarrow> json \<Rightarrow> exn option"

text \<open>Modelled from the spec: \<open>config.Config\<close> is not among the sources (section 6).\<close>

record Config =
  rules :: "string list"
  ignore_rules :: "string list"
  rule_evaluation_errors_to_slack :: bool

text \<open>
  A computation returns a value or raises, and leaves the effects it had. Sequencing stops at
  the first exception and keeps the effects so far.
\<close>

type_synonym 'a outcome = "(exn + 'a) \<times> effect list"

definition pure_result :: "exn + 'a \<Rightarrow> 'a outcome" where
  "pure_result r = (r, [])"

definition and_then :: "'a outcome \<Rightarrow> ('a \<Rightarrow> 'b outcome) \<Rightarrow> 'b outcome" where
  "and_then m f = (case m of
      (Inl e, t) \<Rightarrow> (Inl e, t)
    | (Inr x, t) \<Rightarrow> (case f x of (r, t') \<Rightarrow> (r, t @ t')))"

definition post_message :: "world \<Rightarrow> message \<Rightarrow> json \<Rightarrow> unit outcome" where
  "post_message W msg account_id =
     ((case post_fails W msg account_id of None \<Rightarrow> Inr () | Some e \<Rightarrow> Inl e),
      [PostMessage msg account_id])"

section \<open>Rule evaluation\<close>

record rule_error =
  error :: exn
  rule :: string

record ProcessingResult =
  should_be_processed :: bool
  errors :: "rule_error list"

definition emit :: "effect \<Rightarrow> 'a \<times> effect list \<Rightarrow> 'a \<times> effect list" where
  "emit x rt = (fst rt, x # snd rt)"

text \<open>
  The two loops of \<open>should_message_be_processed\<close> (lines 143 to 159). \<open>is True\<close> holds for
  the boolean \<open>True\<close> only, not for a truthy value such as \<open>1\<close>.
\<close>

fun rules_loop :: "world \<Rightarrow> (string \<times> json) list \<Rightarrow> string list \<Rightarrow> rule_error list
    \<Rightarrow> ProcessingResult \<times> effect list" where
  "rules_loop W flat_event [] errs = (\<lparr>should_be_processed = False, errors = errs\<rparr>, [])"
| "rules_loop W flat_event (r # rs) errs =
     emit (Eval r flat_event)
       (case py_eval W r flat_event of
          Inr v \<Rightarrow>
            if v = JBool True then (\<lparr>should_be_processed = True, errors = errs\<rparr>, [])
            else rules_loop W flat_event rs errs
        | Inl e \<Rightarrow> rules_loop W flat_event rs (errs @ [\<lparr>error = e, rule = r\<rparr>]))"

fun ignore_rules_loop :: "world \<Rightarrow> (string \<times> json) list \<Rightarrow> string list \<Rightarrow> string list
    \<Rightarrow> rule_error list \<Rightarrow> ProcessingResult \<times> effect list" where
  "ignore_rules_loop W flat_event [] rs errs = rules_loop W flat_event rs errs"
| "ignore_rules_loop W flat_event (r # irs) rs errs =
     emit (Eval r flat_event)
       (case py_eval W r flat_event of
          Inr v \<Rightarrow>
            if v = JBool True then (\<lparr>should_be_processed = False, errors = errs\<rparr>, [])
            else ignore_rules_loop W flat_event irs rs errs
        | Inl e \<Rightarrow> ignore_rules_loop W flat_event irs rs (errs @ [\<lparr>error = e, rule = r\<rparr>]))"

definition should_message_be_processed ::
    "world \<Rightarrow> json \<Rightarrow> string list \<Rightarrow> string list \<Rightarrow> ProcessingResult outcome" where
  "should_message_be_processed W event rs irs =
     (let flat_event = flatten_json event in
      and_then (pure_result (getitem event ''userIdentity'')) (\<lambda>user.
      and_then (pure_result (getitem event ''eventName'')) (\<lambda>event_name.
        case ignore_rules_loop W flat_event irs rs [] of (res, t) \<Rightarrow> (Inr res, t))))"

section \<open>Handling one sub-event\<close>

text \<open>
  \<open>r["userIdentity"]["accountId"] if "accountId" in r["userIdentity"] else ""\<close>, the
  expression of lines 74 and 173: the condition is evaluated first.
\<close>

definition account_id_of :: "json \<Rightarrow> exn + json" where
  "account_id_of r =
     (case getitem r ''userIdentity'' of
        Inl e \<Rightarrow> Inl e
      | Inr ui \<Rightarrow>
          (case contains ''accountId'' ui of
             Inl e \<Rightarrow> Inl e
           | Inr True \<Rightarrow> getpath r [''userIdentity'', ''accountId'']
           | Inr False \<Rightarrow> Inr (JStr [])))"

text \<open>
  The test of line 189, \<open>"errorCode" in event and "AccessDenied" in event["errorCode"]\<close>;
  its branch only logs, but the test itself can raise.
\<close>

definition access_denied :: "json \<Rightarrow> exn + bool" where
  "access_denied event =
     (case contains ''errorCode'' event of
        Inl e \<Rightarrow> Inl e
      | Inr False \<Rightarrow> Inr False
      | Inr True \<Rightarrow>
          (case getitem event ''errorCode'' of
             Inl e \<Rightarrow> Inl e
           | Inr code \<Rightarrow> contains ''AccessDenied'' code))"

fun post_errors :: "world \<Rightarrow> rule_error list \<Rightarrow> json \<Rightarrow> json \<Rightarrow> unit outcome" where
  "post_errors W [] object_key account_id = (Inr (), [])"
| "post_errors W (err # errs) object_key account_id =
     and_then
       (post_message W
          (message_for_rule_evaluation_error_notification (error err) object_key (rule err))
          account_id)
       (\<lambda>_. post_errors W errs object_key account_id)"

definition handle_event ::
    "world \<Rightarrow> Config \<Rightarrow> json \<Rightarrow> json \<Rightarrow> string list \<Rightarrow> string list \<Rightarrow> unit outcome" where
  "handle_event W cfg event source_file_object_key rs irs =
     and_then (should_message_be_processed W event rs irs) (\<lambda>result.
     and_then (pure_result (account_id_of event)) (\<lambda>account_id.
     and_then
       (if rule_evaluation_errors_to_slack cfg
        then post_errors W (errors result) source_file_object_key account_id
        else (Inr (), [])) (\<lambda>_.
     if \<not> should_be_processed result then (Inr (), [])
     else
       and_then (pure_result (access_denied event)) (\<lambda>_.
       post_message W
         (event_to_slack_message event source_file_object_key account_id) account_id))))"

section \<open>Handling one change record\<close>

definition handle_removed_object_record :: "world \<Rightarrow> json \<Rightarrow> unit outcome" where
  "handle_removed_object_record W record =
     and_then (pure_result (account_id_of record)) (\<lambda>account_id.
     and_then (pure_result (getpath record [''s3'', ''object'', ''key''])) (\<lambda>source_file.
     post_message W (event_to_slack_message record source_file account_id) account_id))"

record cloudtrail_log_record =
  key :: string
  events :: json

text \<open>
  \<open>unquote_plus\<close> starts with \<open>string.replace\<close>, which only a string has. The fetch is
  recorded as an effect whether it succeeds or not; the \<open>except\<close> clause of line 120 logs
  and raises the same exception again.
\<close>

definition get_cloudtrail_log_records :: "world \<Rightarrow> json \<Rightarrow> cloudtrail_log_record option outcome" where
  "get_cloudtrail_log_records W record =
     and_then (pure_result (contains ''s3'' record)) (\<lambda>has_s3.
     if \<not> has_s3 then (Inl AssertionError, [])
     else
       and_then (pure_result (getpath record [''s3'', ''bucket'', ''name''])) (\<lambda>bucket.
       and_then (pure_result (getpath record [''s3'', ''object'', ''key''])) (\<lambda>quoted.
       case quoted of
         JStr q \<Rightarrow>
           (let k = unquote_plus W q in
            if substring ''Digest'' k then (Inr None, [])
            else
              emit (GetObject bucket k)
                (and_then (pure_result (s3_get_object W bucket k)) (\<lambda>content_as_json.
                 and_then (pure_result (getitem content_as_json ''Records'')) (\<lambda>evs.
                 (Inr (Some \<lparr>key = k, events = evs\<rparr>), [])))))
       | _ \<Rightarrow> (Inl AttributeError, []))))"

fun handle_events :: "world \<Rightarrow> Config \<Rightarrow> json list \<Rightarrow> string \<Rightarrow> unit outcome" where
  "handle_events W cfg [] k = (Inr (), [])"
| "handle_events W cfg (cloudtrail_log_event # evs) k =
     and_then (handle_event W cfg cloudtrail_log_event (JStr k) (rules cfg) (ignore_rules cfg))
       (\<lambda>_. handle_events W cfg evs k)"

definition handle_created_object_record :: "world \<Rightarrow> Config \<Rightarrow> json \<Rightarrow> unit outcome" where
  "handle_created_object_record W cfg record =
     and_then (get_cloudtrail_log_records W record) (\<lambda>cloudtrail_log_record.
     case cloudtrail_log_record of
       None \<Rightarrow> (Inr (), [])
     | Some clr \<Rightarrow>
         and_then (pure_result (iterate (events clr))) (\<lambda>evs.
         handle_events W cfg evs (key clr)))"

section \<open>The handler\<close>

text \<open>The body of the loop of \<open>lambda_handler\<close>, lines 44 to 59.\<close>

definition handle_record :: "world \<Rightarrow> Config \<Rightarrow> json \<Rightarrow> unit outcome" where
  "handle_record W cfg record =
     and_then (pure_result (getitem record ''eventName'')) (\<lambda>event_name.
     and_then (pure_result (getpath record [''s3'', ''object'', ''key''])) (\<lambda>k.
     and_then (pure_result (contains ''Digest'' k)) (\<lambda>_.
     and_then (pure_result (startswith event_name ''ObjectRemoved'')) (\<lambda>removed.
     if removed then handle_removed_object_record W record
     else
       and_then (pure_result (startswith event_name ''ObjectCreated'')) (\<lambda>created.
       if created then handle_created_object_record W cfg record
       else (Inr (), []))))))"

fun handle_records :: "world \<Rightarrow> Config \<Rightarrow> json list \<Rightarrow> unit outcome" where
  "handle_records W cfg [] = (Inr (), [])"
| "handle_records W cfg (record # records) =
     and_then (handle_record W cfg record) (\<lambda>_. handle_records W cfg records)"

text \<open>The \<open>try\<close> block of \<open>lambda_handler\<close>, lines 43 to 59.\<close>

definition lambda_handler_try :: "world \<Rightarrow> Config \<Rightarrow> json \<Rightarrow> unit outcome" where
  "lambda_handler_try W cfg s3_notification_event =
     and_then (pure_result (getitem s3_notification_event ''Records'')) (\<lambda>rs.
     and_then (pure_result (iterate rs)) (\<lambda>records.
     handle_records W cfg records))"

text \<open>
  \<open>lambda_handler\<close>: an exception of the \<open>try\<close> block is handled by posting the error
  message with no account id (\<open>None\<close>); the \<open>return 200\<close> is reached unless that post raises.
\<close>

definition lambda_handler :: "world \<Rightarrow> Config \<Rightarrow> json \<Rightarrow> int outcome" where
  "lambda_handler W cfg s3_notification_event =
     (case lambda_handler_try W cfg s3_notification_event of
        (Inr u, t) \<Rightarrow> (Inr 200, t)
      | (Inl e, t) \<Rightarrow>
          (case post_message W
                  (message_for_slack_error_notification e s3_notification_event) JNull of
             (Inr u, t') \<Rightarrow> (Inr 200, t @ t')
           | (Inl e', t') \<Rightarrow> (Inl e', t @ t')))"

section \<open>Rule evaluation, described\<close>

text \<open>
  The words of the rule-evaluation contract, independent of the loops: a rule fires when its
  expression evaluates to the boolean \<open>True\<close>; the errors of a list of rules are the
  exceptions of those that raise, each with the rule's text, in order; the rules evaluated
  from a list are those up to and including the first that fires.
\<close>

definition fires :: "world \<Rightarrow> (string \<times> json) list \<Rightarrow> string \<Rightarrow> bool" where
  "fires W flat_event r = (py_eval W r flat_event = Inr (JBool True))"

fun collect_errors :: "world \<Rightarrow> (string \<times> json) list \<Rightarrow> string list \<Rightarrow> rule_error list" where
  "collect_errors W flat_event [] = []"
| "collect_errors W flat_event (r # rs) =
     (case py_eval W r flat_event of
        Inl e \<Rightarrow> \<lparr>error = e, rule = r\<rparr> # collect_errors W flat_event rs
      | Inr v \<Rightarrow> collect_errors W flat_event rs)"

fun evaluated :: "world \<Rightarrow> (string \<times> json) list \<Rightarrow> string list \<Rightarrow> string list" where
  "evaluated W flat_event [] = []"
| "evaluated W flat_event (r # rs) =
     r # (if fires W flat_event r then [] else evaluated W flat_event rs)"

section \<open>A concrete setting\<close>

text \<open>
  An evaluator for a handful of rule texts, as Python evaluates them: the literals, two
  comparisons on a key of the flattened event (a missing key raises \<open>KeyError\<close>), and a
  \<open>NameError\<close> for anything else, such as \<open>true\<close>.
\<close>

definition demo_eval :: "string \<Rightarrow> (string \<times> json) list \<Rightarrow> exn + json" where
  "demo_eval r flat_event =
     (if r = ''True'' then Inr (JBool True)
      else if r = ''False'' then Inr (JBool False)
      else if r = ''1'' then Inr (JNum 1)
      else if r = ''event[eventName] == DeleteBucket'' then
        (case map_of flat_event ''eventName'' of
           Some v \<Rightarrow> Inr (JBool (v = JStr ''DeleteBucket''))
         | None \<Rightarrow> Inl (KeyError ''eventName''))
      else if r = ''event[errorCode] == AccessDenied'' then
        (case map_of flat_event ''errorCode'' of
           Some v \<Rightarrow> Inr (JBool (v = JStr ''AccessDenied''))
         | None \<Rightarrow> Inl (KeyError ''errorCode''))
      else Inl (OtherError ''NameError''))"

definition demo_event :: json where
  "demo_event = JDict
     [(''eventName'', JStr ''DeleteBucket''),
      (''userIdentity'', JDict [(''type'', JStr ''IAMUser'')])]"

definition demo_event_with_account :: json where
  "demo_event_with_account = JDict
     [(''eventName'', JStr ''CreateUser''),
      (''userIdentity'', JDict [(''accountId'', JStr ''111122223333'')])]"

definition demo_event_without_name :: json where
  "demo_event_without_name = JDict [(''userIdentity'', JDict [])]"

definition demo_batch :: json where
  "demo_batch = JDict [(''Records'', JList [demo_event])]"

definition demo_get_object :: "json \<Rightarrow> string \<Rightarrow> exn + json" where
  "demo_get_object bucket k =
     (if bucket = JStr ''trail-bucket'' \<and> k = ''logs/trail.json.gz'' then Inr demo_batch
      else if bucket = JStr ''trail-bucket'' \<and> k = ''logs/mixed.json.gz'' then
        Inr (JDict [(''Records'', JList [demo_event_with_account, demo_event_without_name, demo_event])])
      else Inl (OtherError ''NoSuchKey''))"

definition demo_world :: world where
  "demo_world = \<lparr>py_eval = demo_eval, unquote_plus = (\<lambda>s. s),
     s3_get_object = demo_get_object, post_fails = (\<lambda>m a. None)\<rparr>"


definition demo_config :: Config where
  "demo_config = \<lparr>rules = [''event[eventName] == DeleteBucket''], ignore_rules = [],
     rule_evaluation_errors_to_slack = False\<rparr>"

definition reporting_config :: Config where
  "reporting_config = \<lparr>rules = [''true'', ''false''], ignore_rules = [],
     rule_evaluation_errors_to_slack = True\<rparr>"

definition s3_record :: "string \<Rightarrow> string \<Rightarrow> json" where
  "s3_record event_name k = JDict
     [(''eventName'', JStr event_name),
      (''userIdentity'', JDict [(''principalId'', JStr ''AWS:AIDAEXAMPLE'')]),
      (''s3'', JDict [(''bucket'', JDict [(''name'', JStr ''trail-bucket'')]),
                      (''object'', JDict [(''key'', JStr k)])])]"

section \<open>Reading the effects\<close>

text \<open>
  Kinds of effects: a post of any message, a post of an event message (for a sub-event or a
  removal), a post of the handler's own error message. A sub-event is accepted when rule
  evaluation returns for it and says "process". \<open>posted_as a\<close> holds of every effect
  that is not a post, and of a post made with account id \<open>a\<close> (and, for an event message,
  built with it).
\<close>

fun is_post :: "effect \<Rightarrow> bool" where
  "is_post (PostMessage m a) = True"
| "is_post eff = False"

fun is_event_notification :: "effect \<Rightarrow> bool" where
  "is_event_notification (PostMessage (event_to_slack_message e s c) a) = True"
| "is_event_notification eff = False"


definition accepted :: "world \<Rightarrow> json \<Rightarrow> string list \<Rightarrow> string list \<Rightarrow> bool" where
  "accepted W event rs irs =
     (case fst (should_message_be_processed W event rs irs) of
        Inr res \<Rightarrow> should_be_processed res
      | Inl e \<Rightarrow> False)"

fun posted_as :: "json \<Rightarrow> effect \<Rightarrow> bool" where
  "posted_as a (PostMessage (event_to_slack_message e s c) a') = (a' = a \<and> c = a)"
| "posted_as a (PostMessage m a') = (a' = a)"
| "posted_as a eff = True"

section \<open>Properties of flatten\_json\<close>

lemma record_all_Nil [simp]: "record_all [] out = out"
  by (simp add: record_all_def)

lemma record_all_Cons [simp]: "record_all ((k, v) # ws) out = record_all ws (AList.update k v out)"
  by (simp add: record_all_def)

lemma record_all_append [simp]: "record_all (ws @ ws') out = record_all ws' (record_all ws out)"
  by (simp add: record_all_def)

lemma path_prefix_Nil [simp]: "path_prefix [] = []"
  by (simp add: path_prefix_def)

lemma path_prefix_Cons [simp]: "path_prefix (s # p) = s @ ''.'' @ path_prefix p"
  by (simp add: path_prefix_def)

lemma flatten_leaves:
  "flatten x name out = record_all (map (\<lambda>(p, v). (butlast (name @ path_prefix p), v)) (leaves x)) out"
  "flatten_dict kvs name out = record_all (map (\<lambda>(p, v). (butlast (name @ path_prefix p), v)) (leaves_dict kvs)) out"
  "flatten_list xs i name out = record_all (map (\<lambda>(p, v). (butlast (name @ path_prefix p), v)) (leaves_list xs i)) out"
proof (induction x name out and kvs name out and xs i name out rule: flatten_flatten_dict_flatten_list.induct)
  case (8 a x kvs name out)
  then show ?case by (simp add: comp_def case_prod_unfold)
next
  case (10 a xs i name out)
  then show ?case by (simp add: comp_def case_prod_unfold)
qed simp_all

lemma distinct_digits: "distinct ''0123456789''"
  by simp

lemma digit_char_inj: "d < 10 \<Longrightarrow> e < 10 \<Longrightarrow> digit_char d = digit_char e \<Longrightarrow> d = e"
  unfolding digit_char_def
  by (simp only: nth_eq_iff_index_eq[OF distinct_digits] length_Cons list.size)

lemma digit_char_not_dot: "d < 10 \<Longrightarrow> digit_char d \<noteq> CHR ''.''"
proof -
  assume "d < 10"
  then have "digit_char d \<in> set ''0123456789''"
    unfolding digit_char_def by (intro nth_mem) simp
  then show ?thesis by auto
qed

lemma str_nonempty: "str n \<noteq> []"
  by (subst str.simps) simp

lemma str_dot_free: "CHR ''.'' \<notin> set (str n)"
proof (induction n rule: str.induct)
  case (1 n)
  show ?case
  proof (cases "n < 10")
    case True
    then show ?thesis using digit_char_not_dot[of n] by (subst str.simps) auto
  next
    case False
    then show ?thesis using 1 digit_char_not_dot[of "n mod 10"] by (subst str.simps) auto
  qed
qed

lemma str_inj: "str n = str m \<Longrightarrow> n = m"
proof (induction n arbitrary: m rule: str.induct)
  case (1 n)
  show ?case
  proof (cases "n < 10")
    case n: True
    show ?thesis
    proof (cases "m < 10")
      case True
      with n 1(2) show ?thesis by (simp add: str.simps[of n] str.simps[of m] digit_char_inj)
    next
      case False
      with n 1(2) show ?thesis using str_nonempty[of "m div 10"]
        by (simp add: str.simps[of n] str.simps[of m])
    qed
  next
    case n: False
    show ?thesis
    proof (cases "m < 10")
      case True
      with n 1(2) show ?thesis using str_nonempty[of "n div 10"]
        by (simp add: str.simps[of n] str.simps[of m])
    next
      case False
      with n 1(2) have "str (n div 10) = str (m div 10)" and "digit_char (n mod 10) = digit_char (m mod 10)"
        by (simp_all add: str.simps[of n] str.simps[of m])
      then have "n div 10 = m div 10" and "n mod 10 = m mod 10"
        using 1(1)[OF n] digit_char_inj[of "n mod 10" "m mod 10"] by simp_all
      then show ?thesis by (metis div_mult_mod_eq)
    qed
  qed
qed

lemma map_fst_push: "map fst (map (\<lambda>(p, v). (a # p, v)) L) = map ((#) a) (map fst L)"
  by (induction L) auto

lemma paths_simps [simp]:
  "paths (JDict kvs) = paths_dict kvs"
  "paths (JList xs) = paths_list xs 0"
  "paths JNull = [[]]"
  "paths (JBool b) = [[]]"
  "paths (JNum n) = [[]]"
  "paths (JStr s) = [[]]"
  "paths_dict [] = []"
  "paths_dict ((a, x) # kvs) = map ((#) a) (paths x) @ paths_dict kvs"
  "paths_list [] i = []"
  "paths_list (y # xs) i = map ((#) (str i)) (paths y) @ paths_list xs (i + 1)"
  by (simp_all add: paths_def paths_dict_def paths_list_def map_fst_push del: map_map)

lemma paths_dict_head:
  "p \<in> set (paths_dict kvs) \<Longrightarrow> \<exists>a p'. p = a # p' \<and> a \<in> fst ` set kvs"
proof (induction kvs)
  case Nil
  then show ?case by simp
next
  case (Cons kv kvs)
  obtain a x where kv: "kv = (a, x)" by (cases kv)
  from Cons.prems kv have "p \<in> (#) a ` set (paths x) \<or> p \<in> set (paths_dict kvs)" by simp
  then show ?case
  proof
    assume "p \<in> (#) a ` set (paths x)"
    then obtain p' where "p = a # p'" by blast
    with kv show ?thesis by simp
  next
    assume "p \<in> set (paths_dict kvs)"
    from Cons.IH[OF this] obtain b p' where "p = b # p'" "b \<in> fst ` set kvs" by blast
    then show ?thesis by simp
  qed
qed

lemma paths_list_head:
  "p \<in> set (paths_list xs i) \<Longrightarrow> \<exists>j p'. p = str j # p' \<and> i \<le> j \<and> j < i + length xs"
proof (induction xs arbitrary: i)
  case Nil
  then show ?case by simp
next
  case (Cons a xs)
  from Cons.prems have "p \<in> (#) (str i) ` set (paths a) \<or> p \<in> set (paths_list xs (i + 1))" by simp
  then show ?case
  proof
    assume "p \<in> (#) (str i) ` set (paths a)"
    then obtain p' where "p = str i # p'" by blast
    then have "p = str i # p' \<and> i \<le> i \<and> i < i + length (a # xs)" by simp
    then show ?thesis by blast
  next
    assume "p \<in> set (paths_list xs (i + 1))"
    from Cons.IH[OF this] obtain j p' where "p = str j # p'" "i + 1 \<le> j" "j < i + 1 + length xs" by blast
    then have "p = str j # p' \<and> i \<le> j \<and> j < i + length (a # xs)" by simp
    then show ?thesis by blast
  qed
qed

lemma inj_on_Cons: "inj_on ((#) a) A"
  by (simp add: inj_on_def)

lemma paths_distinct:
  "wf_json x \<Longrightarrow> distinct (paths x)"
  "distinct (map fst kvs) \<Longrightarrow> list_all (\<lambda>kv. wf_json (snd kv)) kvs \<Longrightarrow> distinct (paths_dict kvs)"
  "list_all wf_json xs \<Longrightarrow> distinct (paths_list xs i)"
proof (induction x and kvs and xs i rule: leaves_leaves_dict_leaves_list.induct)
  case (8 a x kvs)
  have d1: "distinct (map ((#) a) (paths x))"
    using 8 by (simp add: distinct_map inj_on_Cons)
  have d2: "distinct (paths_dict kvs)" using 8 by simp
  have "(#) a ` set (paths x) \<inter> set (paths_dict kvs) = {}"
  proof (rule ccontr)
    assume "\<not> ?thesis"
    then obtain p where p1: "p \<in> (#) a ` set (paths x)" and p2: "p \<in> set (paths_dict kvs)" by blast
    from p1 have "hd p = a" by auto
    moreover from paths_dict_head[OF p2] obtain b p' where "p = b # p'" "b \<in> fst ` set kvs" by blast
    then have "hd p \<in> fst ` set kvs" by simp
    ultimately show False using 8(3) by simp
  qed
  with d1 d2 show ?case by simp
next
  case (10 a xs i)
  have d1: "distinct (map ((#) (str i)) (paths a))"
    using 10 by (simp add: distinct_map inj_on_Cons)
  have d2: "distinct (paths_list xs (i + 1))" using 10 by simp
  have "(#) (str i) ` set (paths a) \<inter> set (paths_list xs (i + 1)) = {}"
  proof (rule ccontr)
    assume "\<not> ?thesis"
    then obtain p where p1: "p \<in> (#) (str i) ` set (paths a)" and p2: "p \<in> set (paths_list xs (i + 1))" by blast
    from p1 have "hd p = str i" by auto
    moreover from paths_list_head[OF p2] obtain j p' where "p = str j # p'" "i + 1 \<le> j" by blast
    then have "hd p = str j" "i + 1 \<le> j" by simp_all
    ultimately show False using str_inj[of i j] by simp
  qed
  with d1 d2 show ?case by simp
qed simp_all

lemma paths_dot_free:
  "dot_free x \<Longrightarrow> \<forall>p\<in>set (paths x). \<forall>s\<in>set p. CHR ''.'' \<notin> set s"
  "list_all (\<lambda>kv. CHR ''.'' \<notin> set (fst kv) \<and> dot_free (snd kv)) kvs \<Longrightarrow> \<forall>p\<in>set (paths_dict kvs). \<forall>s\<in>set p. CHR ''.'' \<notin> set s"
  "list_all dot_free xs \<Longrightarrow> \<forall>p\<in>set (paths_list xs i). \<forall>s\<in>set p. CHR ''.'' \<notin> set s"
proof (induction x and kvs and xs i rule: leaves_leaves_dict_leaves_list.induct)
  case (8 a x kvs)
  then show ?case by (simp add: ball_Un)
next
  case (10 a xs i)
  then show ?case using str_dot_free[of i] by (simp add: ball_Un)
qed simp_all

lemma split_at_sep:
  "xs @ c # r1 = ys @ c # r2 \<Longrightarrow> c \<notin> set xs \<Longrightarrow> c \<notin> set ys \<Longrightarrow> xs = ys \<and> r1 = r2"
proof (induction xs arbitrary: ys)
  case Nil
  then show ?case by (cases ys) auto
next
  case (Cons x xs)
  then show ?case by (cases ys) auto
qed

lemma path_prefix_inj:
  "path_prefix p = path_prefix q \<Longrightarrow> \<forall>s\<in>set p. CHR ''.'' \<notin> set s \<Longrightarrow> \<forall>s\<in>set q. CHR ''.'' \<notin> set s \<Longrightarrow> p = q"
proof (induction p arbitrary: q)
  case Nil
  then show ?case by (cases q) auto
next
  case (Cons s p)
  show ?case
  proof (cases q)
    case Nil
    with Cons.prems show ?thesis by simp
  next
    case q: (Cons t q')
    with Cons.prems have "s @ CHR ''.'' # path_prefix p = t @ CHR ''.'' # path_prefix q'" by simp
    moreover have "CHR ''.'' \<notin> set s" "CHR ''.'' \<notin> set t" using Cons.prems q by auto
    ultimately have "s = t \<and> path_prefix p = path_prefix q'" by (rule split_at_sep)
    with Cons.IH[of q'] Cons.prems q show ?thesis by auto
  qed
qed

lemma path_prefix_last: "p \<noteq> [] \<Longrightarrow> butlast (path_prefix p) @ ''.'' = path_prefix p"
proof (induction p)
  case Nil
  then show ?case by simp
next
  case (Cons s p)
  then show ?case by (cases "p = []") (simp_all add: butlast_append)
qed

lemma paths_nonempty:
  "paths x = [[]] \<or> (\<forall>p\<in>set (paths x). p \<noteq> [])"
proof (cases x)
  case (JList xs)
  then show ?thesis using paths_list_head[of _ xs 0] by fastforce
next
  case (JDict kvs)
  then show ?thesis using paths_dict_head[of _ kvs] by fastforce
qed simp_all

lemma dotted_inj_on_paths:
  assumes "dot_free x"
  shows "inj_on dotted (set (paths x))"
proof (rule inj_onI)
  fix p q assume p: "p \<in> set (paths x)" and q: "q \<in> set (paths x)" and eq: "dotted p = dotted q"
  from paths_nonempty[of x] show "p = q"
  proof
    assume "paths x = [[]]"
    with p q show ?thesis by simp
  next
    assume ne: "\<forall>p\<in>set (paths x). p \<noteq> []"
    with p q have pne: "p \<noteq> []" and qne: "q \<noteq> []" by auto
    from eq have e: "butlast (path_prefix p) = butlast (path_prefix q)"
      unfolding dotted_def .
    have "path_prefix p = butlast (path_prefix p) @ ''.''"
      by (rule path_prefix_last[OF pne, symmetric])
    also have "\<dots> = butlast (path_prefix q) @ ''.''" by (simp only: e)
    also have "\<dots> = path_prefix q" by (rule path_prefix_last[OF qne])
    finally have "path_prefix p = path_prefix q" .
    moreover have "\<forall>s\<in>set p. CHR ''.'' \<notin> set s"
      using paths_dot_free(1)[OF assms] p by blast
    moreover have "\<forall>s\<in>set q. CHR ''.'' \<notin> set s"
      using paths_dot_free(1)[OF assms] q by blast
    ultimately show ?thesis by (rule path_prefix_inj)
  qed
qed

lemma update_fresh: "k \<notin> fst ` set out \<Longrightarrow> AList.update k v out = out @ [(k, v)]"
  by (induction out) auto

lemma record_all_fresh:
  "distinct (map fst (out @ ws)) \<Longrightarrow> record_all ws out = out @ ws"
proof (induction ws arbitrary: out)
  case Nil
  then show ?case by simp
next
  case (Cons w ws)
  obtain k v where w: "w = (k, v)" by (cases w)
  from Cons.prems w have "k \<notin> fst ` set out" by auto
  then have u: "AList.update k v out = out @ [(k, v)]" by (rule update_fresh)
  from Cons.prems w have "distinct (map fst ((out @ [(k, v)]) @ ws))" by simp
  from Cons.IH[OF this] u w show ?case by simp
qed

lemma keys_of_leaves: "map fst (map (\<lambda>(p, v). (dotted p, v)) (leaves y)) = map dotted (paths y)"
  by (simp add: paths_def case_prod_unfold comp_def)

lemma dotted_paths_distinct:
  assumes "wf_json y" "dot_free y"
  shows "distinct (map dotted (paths y))"
  using paths_distinct(1)[OF assms(1)] dotted_inj_on_paths[OF assms(2)]
  by (simp only: distinct_map simp_thms)

text \<open>
  C2. \<open>flatten_json\<close> visits the structure depth-first, extends the path by the key and a
  dot under a mapping and by the decimal index and a dot under a sequence, and records every
  value that is neither a mapping nor a sequence at its path without the last dot: the result
  is what recording the leaves, in depth-first order, under their dotted names gives. In particular
  \<open>{"a": [{"b": 1}, 2]}\<close> flattens to exactly \<open>{"a.0.b": 1, "a.1": 2}\<close>.
\<close>

theorem flatten_json_traversal:
  "flatten_json y = record_all (map (\<lambda>(p, v). (dotted p, v)) (leaves y)) []
   \<and> flatten_json (JDict [(''a'', JList [JDict [(''b'', JNum 1)], JNum 2])])
       = [(''a.0.b'', JNum 1), (''a.1'', JNum 2)]"
proof
  show "flatten_json y = record_all (map (\<lambda>(p, v). (dotted p, v)) (leaves y)) []"
    by (simp add: flatten_json_def flatten_leaves dotted_def)
  show "flatten_json (JDict [(''a'', JList [JDict [(''b'', JNum 1)], JNum 2])])
       = [(''a.0.b'', JNum 1), (''a.1'', JNum 2)]"
    by (simp add: flatten_json_def str.simps digit_char_def)
qed

text \<open>
  C3, as stated, fails: a key that contains the separator collides with a nested path. In
  \<open>{"a.b": 1, "a": {"b": 2}}\<close> the two leaves lie at different positions with the same
  dotted name, and the flattened mapping keeps one entry, with the value written last.
\<close>

theorem flatten_json_collision:
  "wf_json (JDict [(''a.b'', JNum 1), (''a'', JDict [(''b'', JNum 2)])])
   \<and> paths (JDict [(''a.b'', JNum 1), (''a'', JDict [(''b'', JNum 2)])]) = [[''a.b''], [''a'', ''b'']]
   \<and> \<not> distinct (map dotted (paths (JDict [(''a.b'', JNum 1), (''a'', JDict [(''b'', JNum 2)])])))
   \<and> flatten_json (JDict [(''a.b'', JNum 1), (''a'', JDict [(''b'', JNum 2)])]) = [(''a.b'', JNum 2)]"
  by (simp add: flatten_json_def dotted_def)

text \<open>
  C3, amended. For a structure in which no key of a mapping contains a dot, the leaf positions
  have pairwise distinct dotted names, and the flattened mapping has exactly one entry for each
  leaf, in depth-first order, with the leaf's dotted name as key and the leaf as value.
  (\<open>flatten_json\<close> is a function of its argument alone, so two runs on one structure agree.)
\<close>

theorem flatten_json_injective:
  assumes "wf_json y" and "dot_free y"
  shows "distinct (paths y)
    \<and> distinct (map dotted (paths y))
    \<and> flatten_json y = map (\<lambda>(p, v). (dotted p, v)) (leaves y)"
proof -
  have d: "distinct (map dotted (paths y))" using assms by (rule dotted_paths_distinct)
  then have "distinct (map fst ([] @ map (\<lambda>(p, v). (dotted p, v)) (leaves y)))"
    by (simp only: keys_of_leaves append_Nil)
  from record_all_fresh[OF this]
  have "flatten_json y = map (\<lambda>(p, v). (dotted p, v)) (leaves y)"
    by (simp add: flatten_json_def flatten_leaves dotted_def)
  with d paths_distinct(1)[OF assms(1)] show ?thesis by simp
qed

theorem flatten_json_injective_witness:
  "wf_json (JDict [(''a'', JList [JDict [(''b'', JNum 1)], JNum 2])])
   \<and> dot_free (JDict [(''a'', JList [JDict [(''b'', JNum 1)], JNum 2])])
   \<and> distinct (map dotted (paths (JDict [(''a'', JList [JDict [(''b'', JNum 1)], JNum 2])])))
   \<and> flatten_json (JDict [(''a'', JList [JDict [(''b'', JNum 1)], JNum 2])])
       = map (\<lambda>(p, v). (dotted p, v)) (leaves (JDict [(''a'', JList [JDict [(''b'', JNum 1)], JNum 2])]))"
  using flatten_json_injective [of "JDict [(''a'', JList [JDict [(''b'', JNum 1)], JNum 2])]"]
  by simp

section \<open>Properties of the handler\<close>

text \<open>The substring test is the library's contiguous sublist relation.\<close>

lemma substring_sublist: "substring k s = sublist k s"
proof (induction s)
  case Nil
  then show ?case by simp
next
  case (Cons c s)
  then show ?case by (cases k) (simp_all add: sublist_Cons_right)
qed

lemma and_then_pure_Inr [simp]: "and_then (pure_result (Inr x)) f = f x"
  by (simp add: and_then_def pure_result_def split: prod.splits)

lemma and_then_pure_Inl [simp]: "and_then (pure_result (Inl e)) f = (Inl e, [])"
  by (simp add: and_then_def pure_result_def)

lemma and_then_Inr [simp]: "and_then (Inr x, t) f = (fst (f x), t @ snd (f x))"
  by (simp add: and_then_def split: prod.splits)

lemma and_then_Inl [simp]: "and_then (Inl e, t) f = (Inl e, t)"
  by (simp add: and_then_def)

lemma emit_pair [simp]: "emit x (r, t) = (r, x # t)"
  by (simp add: emit_def)

lemma collect_errors_append [simp]:
  "collect_errors W fe (xs @ ys) = collect_errors W fe xs @ collect_errors W fe ys"
  by (induction xs) (auto split: sum.splits)





lemma should_message_be_processed_loop:
  "getitem event ''userIdentity'' = Inr user \<Longrightarrow> getitem event ''eventName'' = Inr event_name \<Longrightarrow>
   should_message_be_processed W event rs irs =
     (Inr (fst (ignore_rules_loop W (flatten_json event) irs rs [])),
      snd (ignore_rules_loop W (flatten_json event) irs rs []))"
  by (simp add: should_message_be_processed_def split: prod.splits)


lemma fst_and_then: "fst (and_then m f) = (case fst m of Inl e \<Rightarrow> Inl e | Inr x \<Rightarrow> fst (f x))"
  by (cases m) (simp add: and_then_def split: sum.splits prod.splits)

lemma snd_and_then: "snd (and_then m f) = snd m @ (case fst m of Inl e \<Rightarrow> [] | Inr x \<Rightarrow> snd (f x))"
  by (cases m) (simp add: and_then_def split: sum.splits prod.splits)

lemma trace_and_then:
  assumes "\<forall>eff\<in>set (snd m). P eff" and "\<And>x. \<forall>eff\<in>set (snd (f x)). P eff"
  shows "\<forall>eff\<in>set (snd (and_then m f)). P eff"
  using assms by (auto simp: snd_and_then split: sum.splits)

lemma snd_pure_result [simp]: "snd (pure_result r) = []"
  by (simp add: pure_result_def)

lemma fst_pure_result [simp]: "fst (pure_result r) = r"
  by (simp add: pure_result_def)

lemma snd_post_message [simp]: "snd (post_message W m a) = [PostMessage m a]"
  by (simp add: post_message_def)


lemma getitem_contains: "getitem x k = Inr v \<Longrightarrow> contains k x = Inr True"
proof (cases x)
  case (JDict kvs)
  assume "getitem x k = Inr v"
  with JDict have "map_of kvs k = Some v" by (simp split: option.splits)
  then have "k \<in> fst ` set kvs" by (metis map_of_eq_None_iff option.distinct(1))
  with JDict show ?thesis by simp
qed simp_all

lemma getpath_head: "getpath x (k # ks) = Inr v \<Longrightarrow> \<exists>y. getitem x k = Inr y \<and> getpath y ks = Inr v"
  by (cases "getitem x k") simp_all

text \<open>
  C9. A removal record (event name starting with \<open>ObjectRemoved\<close>, with the actor identity
  and the object key every change record carries) is dispatched to
  \<open>handle_removed_object_record\<close>, whatever the configuration; the only effect of handling
  it is one post of the removal message: no rule is evaluated, no object is fetched.
\<close>

theorem removal_notifies_once:
  assumes "getitem record ''eventName'' = Inr (JStr n)"
    and "prefix ''ObjectRemoved'' n"
    and "account_id_of record = Inr account_id"
    and "getpath record [''s3'', ''object'', ''key''] = Inr (JStr k)"
  shows "handle_record W cfg record = handle_removed_object_record W record
    \<and> snd (handle_removed_object_record W record)
        = [PostMessage (event_to_slack_message record (JStr k) account_id) account_id]
    \<and> fst (handle_removed_object_record W record)
        = (case post_fails W (event_to_slack_message record (JStr k) account_id) account_id of
             None \<Rightarrow> Inr () | Some e \<Rightarrow> Inl e)"
proof (intro conjI)
  show "handle_record W cfg record = handle_removed_object_record W record"
    using assms by (simp add: handle_record_def)
  show "snd (handle_removed_object_record W record)
        = [PostMessage (event_to_slack_message record (JStr k) account_id) account_id]"
    using assms by (simp add: handle_removed_object_record_def)
  show "fst (handle_removed_object_record W record)
        = (case post_fails W (event_to_slack_message record (JStr k) account_id) account_id of
             None \<Rightarrow> Inr () | Some e \<Rightarrow> Inl e)"
    using assms by (simp add: handle_removed_object_record_def post_message_def)
qed

text \<open>
  C6. For a record whose URL-decoded object key contains \<open>Digest\<close>,
  \<open>get_cloudtrail_log_records\<close> returns \<open>None\<close> without any effect (no fetch, hence no
  decoding), and handling the created-object record does nothing: no sub-event is
  evaluated or notified.
\<close>

theorem digest_objects_are_skipped:
  assumes "getpath record [''s3'', ''bucket'', ''name''] = Inr bucket"
    and "getpath record [''s3'', ''object'', ''key''] = Inr (JStr q)"
    and "substring ''Digest'' (unquote_plus W q)"
  shows "get_cloudtrail_log_records W record = (Inr None, [])
    \<and> handle_created_object_record W cfg record = (Inr (), [])"
proof -
  from getpath_head[OF assms(1)] obtain s where "getitem record ''s3'' = Inr s" by blast
  then have c: "contains ''s3'' record = Inr True" by (rule getitem_contains)
  have g: "get_cloudtrail_log_records W record = (Inr None, [])"
    using assms c by (simp add: get_cloudtrail_log_records_def)
  then show ?thesis by (simp add: handle_created_object_record_def)
qed





lemma rules_loop_trace:
  "snd (rules_loop W fe rs errs) = map (\<lambda>r. Eval r fe) (evaluated W fe rs)
   \<and> errors (fst (rules_loop W fe rs errs)) = errs @ collect_errors W fe (evaluated W fe rs)"
proof (induction rs arbitrary: errs)
  case Nil
  then show ?case by simp
next
  case (Cons r rs)
  show ?case
  proof (cases "py_eval W r fe")
    case (Inl e)
    then show ?thesis using Cons[of "errs @ [\<lparr>error = e, rule = r\<rparr>]"]
      by (simp add: fires_def emit_def)
  next
    case (Inr v)
    then show ?thesis using Cons[of errs] by (simp add: fires_def emit_def)
  qed
qed

lemma ignore_rules_loop_trace:
  "snd (ignore_rules_loop W fe irs rs errs) = map (\<lambda>r. Eval r fe) (evaluated W fe (irs @ rs))
   \<and> errors (fst (ignore_rules_loop W fe irs rs errs))
       = errs @ collect_errors W fe (evaluated W fe (irs @ rs))"
proof (induction irs arbitrary: errs)
  case Nil
  then show ?case by (simp add: rules_loop_trace)
next
  case (Cons r irs)
  show ?case
  proof (cases "py_eval W r fe")
    case (Inl e)
    then show ?thesis using Cons[of "errs @ [\<lparr>error = e, rule = r\<rparr>]"]
      by (simp add: fires_def emit_def)
  next
    case (Inr v)
    then show ?thesis using Cons[of errs] by (simp add: fires_def emit_def)
  qed
qed


lemma should_message_be_processed_evals:
  "\<forall>eff\<in>set (snd (should_message_be_processed W event rs irs)). \<exists>r fe. eff = Eval r fe"
proof (cases "getitem event ''userIdentity''")
  case (Inl e)
  then show ?thesis by (simp add: should_message_be_processed_def)
next
  case u: (Inr user)
  show ?thesis
  proof (cases "getitem event ''eventName''")
    case (Inl e)
    with u show ?thesis by (simp add: should_message_be_processed_def)
  next
    case (Inr event_name)
    have "snd (should_message_be_processed W event rs irs)
        = map (\<lambda>r. Eval r (flatten_json event)) (evaluated W (flatten_json event) (irs @ rs))"
      using should_message_be_processed_loop[OF u Inr, of W rs irs]
        ignore_rules_loop_trace[of W "flatten_json event" irs rs "[]"]
      by simp
    then show ?thesis by auto
  qed
qed

lemma post_errors_trace:
  "\<forall>eff\<in>set (snd (post_errors W errs k a)).
     \<exists>e r. eff = PostMessage (message_for_rule_evaluation_error_notification e k r) a"
  by (induction errs) (auto simp: snd_and_then split: sum.splits)

lemma filter_none: "\<forall>x\<in>set xs. \<not> P x \<Longrightarrow> filter P xs = []"
  by (induction xs) auto

lemma smbp_no_posts: "filter is_post (snd (should_message_be_processed W event rs irs)) = []"
  using should_message_be_processed_evals[of W event rs irs] by (intro filter_none) auto

lemma smbp_no_event_notifications:
  "filter is_event_notification (snd (should_message_be_processed W event rs irs)) = []"
  using should_message_be_processed_evals[of W event rs irs] by (intro filter_none) auto


lemma post_errors_no_event_notifications:
  "filter is_event_notification (snd (post_errors W errs k a)) = []"
  using post_errors_trace[of W errs k a] by (intro filter_none) auto


lemmas handle_event_unfold =
  handle_event_def snd_and_then fst_and_then smbp_no_posts smbp_no_event_notifications
  post_errors_no_event_notifications accepted_def

lemma handle_event_at_most_one:
  "length (filter is_event_notification (snd (handle_event W cfg e k rs irs))) \<le> 1"
  by (simp add: handle_event_unfold split: sum.splits)

lemma handle_event_rejected:
  "\<not> accepted W e rs irs \<Longrightarrow>
   filter is_event_notification (snd (handle_event W cfg e k rs irs)) = []"
  by (cases "fst (should_message_be_processed W e rs irs)")
     (auto simp: handle_event_unfold split: sum.splits)

lemma handle_event_accepted:
  "fst (handle_event W cfg e k rs irs) = Inr () \<Longrightarrow> accepted W e rs irs \<Longrightarrow>
   length (filter is_event_notification (snd (handle_event W cfg e k rs irs))) = 1"
  by (cases "fst (should_message_be_processed W e rs irs)")
     (auto simp: handle_event_unfold split: sum.splits if_splits)

lemma handle_event_toggle_off:
  "\<not> rule_evaluation_errors_to_slack cfg \<Longrightarrow>
   filter is_post (snd (handle_event W cfg e k rs irs))
     = filter is_event_notification (snd (handle_event W cfg e k rs irs))"
  by (simp add: handle_event_unfold split: sum.splits)

lemma handle_events_count:
  "length (filter is_event_notification (snd (handle_events W cfg evs k))) \<le> length evs
   \<and> (fst (handle_events W cfg evs k) = Inr () \<longrightarrow>
        length (filter is_event_notification (snd (handle_events W cfg evs k)))
          = length (filter (\<lambda>e. accepted W e (rules cfg) (ignore_rules cfg)) evs))
   \<and> (\<not> rule_evaluation_errors_to_slack cfg \<longrightarrow>
        filter is_post (snd (handle_events W cfg evs k))
          = filter is_event_notification (snd (handle_events W cfg evs k)))"
proof (induction evs)
  case Nil
  then show ?case by simp
next
  case (Cons e evs)
  let ?h = "handle_event W cfg e (JStr k) (rules cfg) (ignore_rules cfg)"
  have one: "length (filter is_event_notification (snd ?h)) \<le> 1"
    by (rule handle_event_at_most_one)
  show ?case
  proof (cases "fst ?h")
    case (Inl x)
    with one show ?thesis
      by (simp add: snd_and_then fst_and_then handle_event_toggle_off)
  next
    case (Inr u)
    then have ok: "fst ?h = Inr ()" by simp
    have cnt: "length (filter is_event_notification (snd ?h))
        = (if accepted W e (rules cfg) (ignore_rules cfg) then 1 else 0)"
      using handle_event_accepted[OF ok] handle_event_rejected[of W e "rules cfg" "ignore_rules cfg" cfg "JStr k"]
      by auto
    from Inr Cons cnt show ?thesis
      by (simp add: snd_and_then fst_and_then handle_event_toggle_off)
  qed
qed

lemma get_cloudtrail_log_records_trace:
  "\<forall>eff\<in>set (snd (get_cloudtrail_log_records W record)). \<exists>b k. eff = GetObject b k"
  by (auto simp: get_cloudtrail_log_records_def snd_and_then emit_def Let_def
      split: sum.splits json.splits if_splits)

text \<open>
  C7, amended. For a created-object record whose decoded batch has the sub-events \<open>evs\<close>,
  handling the record posts at most \<open>length evs\<close> event messages; when no exception ends the
  handling early, it posts exactly one for each accepted sub-event and none for the others.
  With the reporting of evaluation errors switched off these are all the posts there are. With
  it switched on, the error messages of failing rules come on top, so the number of posts is
  not bounded by the number of sub-events.
\<close>

theorem event_notifications_bounded:
  assumes "get_cloudtrail_log_records W record = (Inr (Some clr), t0)"
    and "iterate (events clr) = Inr evs"
  shows "length (filter is_event_notification (snd (handle_created_object_record W cfg record)))
      \<le> length evs
    \<and> (fst (handle_created_object_record W cfg record) = Inr () \<longrightarrow>
        length (filter is_event_notification (snd (handle_created_object_record W cfg record)))
          = length (filter (\<lambda>e. accepted W e (rules cfg) (ignore_rules cfg)) evs))
    \<and> (\<not> rule_evaluation_errors_to_slack cfg \<longrightarrow>
        filter is_post (snd (handle_created_object_record W cfg record))
          = filter is_event_notification (snd (handle_created_object_record W cfg record)))"
proof -
  have t0: "filter is_event_notification t0 = []" "filter is_post t0 = []"
    using get_cloudtrail_log_records_trace[of W "record"] assms(1)
    by (auto intro!: filter_none)
  have run: "handle_created_object_record W cfg record
      = (fst (handle_events W cfg evs (key clr)), t0 @ snd (handle_events W cfg evs (key clr)))"
    using assms by (simp add: handle_created_object_record_def)
  show ?thesis
    using handle_events_count[of W cfg evs "key clr"] by (simp add: run t0)
qed









lemma lambda_handler_cases:
  "lambda_handler W cfg ev =
     (case fst (lambda_handler_try W cfg ev) of
        Inr u \<Rightarrow> (Inr 200, snd (lambda_handler_try W cfg ev))
      | Inl e \<Rightarrow>
          ((case post_fails W (message_for_slack_error_notification e ev) JNull of
              None \<Rightarrow> Inr 200 | Some e' \<Rightarrow> Inl e'),
           snd (lambda_handler_try W cfg ev)
             @ [PostMessage (message_for_slack_error_notification e ev) JNull]))"
  by (cases "lambda_handler_try W cfg ev")
     (simp add: lambda_handler_def post_message_def split: sum.splits option.splits)


lemma and_then_Inr_inv:
  "and_then m f = (Inr y, t) \<Longrightarrow> \<exists>x t1 t2. m = (Inr x, t1) \<and> f x = (Inr y, t2) \<and> t = t1 @ t2"
  by (cases m) (auto simp: and_then_def split: sum.splits prod.splits)

lemma handle_events_append:
  "handle_events W cfg pre k = (Inr (), t) \<Longrightarrow>
   handle_events W cfg (pre @ ys) k
     = (fst (handle_events W cfg ys k), t @ snd (handle_events W cfg ys k))"
proof (induction pre arbitrary: t)
  case Nil
  then show ?case by simp
next
  case (Cons e pre)
  from Cons.prems and_then_Inr_inv[of "handle_event W cfg e (JStr k) (rules cfg) (ignore_rules cfg)"
      "\<lambda>_. handle_events W cfg pre k" "()" t]
  obtain t1 t2 where h: "handle_event W cfg e (JStr k) (rules cfg) (ignore_rules cfg) = (Inr (), t1)"
    and r: "handle_events W cfg pre k = (Inr (), t2)" and t: "t = t1 @ t2"
    by auto
  from Cons.IH[OF r] h t show ?case by simp
qed

lemma missing_key_raises:
  assumes "''userIdentity'' \<notin> fst ` set kvs \<or> ''eventName'' \<notin> fst ` set kvs"
  shows "should_message_be_processed W (JDict kvs) rs irs
    = (Inl (KeyError (if ''userIdentity'' \<notin> fst ` set kvs then ''userIdentity'' else ''eventName'')), [])"
proof (cases "''userIdentity'' \<in> fst ` set kvs")
  case True
  then obtain u where "map_of kvs ''userIdentity'' = Some u"
    by (metis map_of_eq_None_iff not_Some_eq)
  moreover from True assms have "map_of kvs ''eventName'' = None"
    by (simp add: map_of_eq_None_iff)
  ultimately show ?thesis using True by (simp add: should_message_be_processed_def)
next
  case False
  then have "map_of kvs ''userIdentity'' = None" by (simp add: map_of_eq_None_iff)
  with False show ?thesis by (simp add: should_message_be_processed_def)
qed

lemma handle_event_posted_as:
  assumes "account_id_of event = Inr a"
  shows "\<forall>eff\<in>set (snd (handle_event W cfg event k rs irs)). posted_as a eff"
proof -
  have e: "\<forall>eff\<in>set (snd (should_message_be_processed W event rs irs)). posted_as a eff"
    using should_message_be_processed_evals[of W event rs irs] by auto
  have p: "\<forall>eff\<in>set (snd (post_errors W errs k a)). posted_as a eff" for errs
    using post_errors_trace[of W errs k a] by auto
  show ?thesis
    using e p assms
    by (auto simp: handle_event_def snd_and_then split: sum.splits if_splits)
qed

text \<open>
  C10. For a sub-event mapping without \<open>userIdentity\<close> or without \<open>eventName\<close>,
  \<open>should_message_be_processed\<close> raises \<open>KeyError\<close> with no rule evaluated; the loop over
  the batch stops there, with the effects of the earlier sub-events only, and the later
  sub-events are not handled; in the handler the exception ends the \<open>try\<close> block and is
  posted as the handler's error message. When \<open>userIdentity\<close> is there and \<open>accountId\<close> is
  not in it, the account id is the empty string, for every post about the event and for the
  post about a removal record.
\<close>

theorem missing_keys_abort_the_batch:
  assumes "''userIdentity'' \<notin> fst ` set kvs \<or> ''eventName'' \<notin> fst ` set kvs"
  shows "should_message_be_processed W (JDict kvs) rs irs
      = (Inl (KeyError (if ''userIdentity'' \<notin> fst ` set kvs then ''userIdentity'' else ''eventName'')), [])
    \<and> (handle_events W cfg pre k = (Inr (), t) \<longrightarrow>
        handle_events W cfg (pre @ JDict kvs # post) k
          = (Inl (KeyError (if ''userIdentity'' \<notin> fst ` set kvs then ''userIdentity'' else ''eventName'')), t))
    \<and> (getitem batch ''Records'' = Inr recs \<and> iterate recs = Inr (rec # later)
        \<and> handle_record W cfg rec = handle_created_object_record W cfg rec
        \<and> get_cloudtrail_log_records W rec = (Inr (Some clr), t0)
        \<and> iterate (events clr) = Inr (pre @ JDict kvs # post)
        \<and> handle_events W cfg pre (key clr) = (Inr (), t) \<longrightarrow>
        snd (lambda_handler W cfg batch)
          = t0 @ t @ [PostMessage (message_for_slack_error_notification
                 (KeyError (if ''userIdentity'' \<notin> fst ` set kvs then ''userIdentity'' else ''eventName''))
                 batch) JNull])
    \<and> (getitem event ''userIdentity'' = Inr ui \<and> contains ''accountId'' ui = Inr False \<longrightarrow>
        account_id_of event = Inr (JStr [])
        \<and> (\<forall>eff\<in>set (snd (handle_event W cfg event k' rs irs)). posted_as (JStr []) eff)
        \<and> (\<forall>eff\<in>set (snd (handle_removed_object_record W event)). posted_as (JStr []) eff))"
proof (intro conjI impI)
  let ?miss = "KeyError (if ''userIdentity'' \<notin> fst ` set kvs then ''userIdentity'' else ''eventName'')"
  have raise: "should_message_be_processed W (JDict kvs) rs' irs' = (Inl ?miss, [])" for rs' irs'
    using assms by (rule missing_key_raises)
  show "should_message_be_processed W (JDict kvs) rs irs = (Inl ?miss, [])" by (rule raise)
  have ev: "handle_event W cfg (JDict kvs) k2 (rules cfg) (ignore_rules cfg) = (Inl ?miss, [])" for k2
    by (simp add: handle_event_def raise)
  have abort: "handle_events W cfg (pre @ JDict kvs # post) k2 = (Inl ?miss, t2)"
    if "handle_events W cfg pre k2 = (Inr (), t2)" for k2 t2
    using handle_events_append[OF that, of "JDict kvs # post"] by (simp add: ev)
  {
    assume "handle_events W cfg pre k = (Inr (), t)"
    then show "handle_events W cfg (pre @ JDict kvs # post) k = (Inl ?miss, t)" by (rule abort)
  next
    assume h: "getitem batch ''Records'' = Inr recs \<and> iterate recs = Inr (rec # later)
        \<and> handle_record W cfg rec = handle_created_object_record W cfg rec
        \<and> get_cloudtrail_log_records W rec = (Inr (Some clr), t0)
        \<and> iterate (events clr) = Inr (pre @ JDict kvs # post)
        \<and> handle_events W cfg pre (key clr) = (Inr (), t)"
    then have "handle_events W cfg (pre @ JDict kvs # post) (key clr) = (Inl ?miss, t)"
      by (intro abort) simp
    with h have "handle_created_object_record W cfg rec = (Inl ?miss, t0 @ t)"
      by (simp add: handle_created_object_record_def)
    with h have "lambda_handler_try W cfg batch = (Inl ?miss, t0 @ t)"
      by (simp add: lambda_handler_try_def)
    then show "snd (lambda_handler W cfg batch)
          = t0 @ t @ [PostMessage (message_for_slack_error_notification ?miss batch) JNull]"
      by (simp add: lambda_handler_cases)
  next
    assume h: "getitem event ''userIdentity'' = Inr ui \<and> contains ''accountId'' ui = Inr False"
    then show a: "account_id_of event = Inr (JStr [])" by (simp add: account_id_of_def)
    from a show "\<forall>eff\<in>set (snd (handle_event W cfg event k' rs irs)). posted_as (JStr []) eff"
      by (rule handle_event_posted_as)
    from a show "\<forall>eff\<in>set (snd (handle_removed_object_record W event)). posted_as (JStr []) eff"
      by (auto simp: handle_removed_object_record_def snd_and_then split: sum.splits)
  }
qed

section \<open>The theorems at work in the concrete setting\<close>

lemma flat_demo: "flatten_json demo_event = [(''eventName'', JStr ''DeleteBucket''), (''userIdentity.type'', JStr ''IAMUser'')]"
  by (simp add: flatten_json_def demo_event_def)

lemma demo_event_keys:
  "getitem demo_event ''userIdentity'' = Inr (JDict [(''type'', JStr ''IAMUser'')])"
  "getitem demo_event ''eventName'' = Inr (JStr ''DeleteBucket'')"
  by (simp_all add: demo_event_def)


theorem digest_objects_are_skipped_witness:
  "get_cloudtrail_log_records demo_world
      (s3_record ''ObjectCreated:Put'' ''AWSLogs/CloudTrail-Digest/d.json.gz'') = (Inr None, [])
   \<and> handle_created_object_record demo_world demo_config
      (s3_record ''ObjectCreated:Put'' ''AWSLogs/CloudTrail-Digest/d.json.gz'') = (Inr (), [])"
  using digest_objects_are_skipped [of "s3_record ''ObjectCreated:Put'' ''AWSLogs/CloudTrail-Digest/d.json.gz''"
      "JStr ''trail-bucket''" "''AWSLogs/CloudTrail-Digest/d.json.gz''" demo_world demo_config]
  by (simp add: s3_record_def demo_world_def)

theorem removal_notifies_once_witness:
  "handle_record demo_world reporting_config (s3_record ''ObjectRemoved:Delete'' ''logs/old.json.gz'')
     = handle_removed_object_record demo_world (s3_record ''ObjectRemoved:Delete'' ''logs/old.json.gz'')
   \<and> snd (handle_removed_object_record demo_world (s3_record ''ObjectRemoved:Delete'' ''logs/old.json.gz''))
     = [PostMessage (event_to_slack_message (s3_record ''ObjectRemoved:Delete'' ''logs/old.json.gz'')
          (JStr ''logs/old.json.gz'') (JStr [])) (JStr [])]
   \<and> fst (handle_removed_object_record demo_world (s3_record ''ObjectRemoved:Delete'' ''logs/old.json.gz''))
     = Inr ()"
  using removal_notifies_once [of "s3_record ''ObjectRemoved:Delete'' ''logs/old.json.gz''"
      "''ObjectRemoved:Delete''" "JStr []" "''logs/old.json.gz''" demo_world reporting_config]
  by (simp add: s3_record_def demo_world_def account_id_of_def)


lemma demo_event_account: "account_id_of demo_event = Inr (JStr [])"
  by (simp add: account_id_of_def demo_event_def)

lemma demo_event_not_denied: "access_denied demo_event = Inr False"
  by (simp add: access_denied_def demo_event_def)

lemma demo_world_posts: "post_fails demo_world m a = None"
  by (simp add: demo_world_def)



lemma get_trail:
  "get_cloudtrail_log_records demo_world (s3_record ''ObjectCreated:Put'' ''logs/trail.json.gz'')
     = (Inr (Some \<lparr>key = ''logs/trail.json.gz'', events = JList [demo_event]\<rparr>),
        [GetObject (JStr ''trail-bucket'') ''logs/trail.json.gz''])"
  by (simp add: get_cloudtrail_log_records_def s3_record_def demo_world_def demo_get_object_def
      demo_batch_def Let_def)

lemma demo_run_true_false:
  "should_message_be_processed demo_world demo_event [''true'', ''false''] []
     = (Inr \<lparr>should_be_processed = False,
             errors = [\<lparr>error = OtherError ''NameError'', rule = ''true''\<rparr>,
                       \<lparr>error = OtherError ''NameError'', rule = ''false''\<rparr>]\<rparr>,
        [Eval ''true'' (flatten_json demo_event), Eval ''false'' (flatten_json demo_event)])"
  by (simp add: should_message_be_processed_def Let_def demo_event_keys flat_demo
      demo_world_def demo_eval_def)

lemma demo_run_delete:
  "should_message_be_processed demo_world demo_event [''event[eventName] == DeleteBucket''] []
     = (Inr \<lparr>should_be_processed = True, errors = []\<rparr>,
        [Eval ''event[eventName] == DeleteBucket'' (flatten_json demo_event)])"
  by (simp add: should_message_be_processed_def Let_def demo_event_keys flat_demo
      demo_world_def demo_eval_def)

text \<open>
  C7, as stated, fails. With the reporting of evaluation errors switched on and the two rules
  \<open>true\<close> and \<open>false\<close> (a \<open>NameError\<close> each), a batch of one sub-event, which no rule
  accepts, leads to two posts.
\<close>

theorem notification_calls_exceed_sub_events:
  "get_cloudtrail_log_records demo_world (s3_record ''ObjectCreated:Put'' ''logs/trail.json.gz'')
     = (Inr (Some \<lparr>key = ''logs/trail.json.gz'', events = JList [demo_event]\<rparr>),
        [GetObject (JStr ''trail-bucket'') ''logs/trail.json.gz''])
   \<and> iterate (JList [demo_event]) = Inr [demo_event]
   \<and> \<not> accepted demo_world demo_event (rules reporting_config) (ignore_rules reporting_config)
   \<and> filter is_post (snd (handle_created_object_record demo_world reporting_config
        (s3_record ''ObjectCreated:Put'' ''logs/trail.json.gz'')))
     = [PostMessage (message_for_rule_evaluation_error_notification (OtherError ''NameError'')
          (JStr ''logs/trail.json.gz'') ''true'') (JStr []),
        PostMessage (message_for_rule_evaluation_error_notification (OtherError ''NameError'')
          (JStr ''logs/trail.json.gz'') ''false'') (JStr [])]"
  by (simp add: get_trail handle_created_object_record_def handle_event_def reporting_config_def
      demo_run_true_false demo_event_account demo_world_posts post_message_def accepted_def)

theorem event_notifications_bounded_witness:
  "length (filter is_event_notification (snd (handle_created_object_record demo_world demo_config
        (s3_record ''ObjectCreated:Put'' ''logs/trail.json.gz'')))) \<le> length [demo_event]
   \<and> length (filter is_event_notification (snd (handle_created_object_record demo_world demo_config
        (s3_record ''ObjectCreated:Put'' ''logs/trail.json.gz''))))
      = length (filter (\<lambda>e. accepted demo_world e (rules demo_config) (ignore_rules demo_config))
          [demo_event])
   \<and> filter is_post (snd (handle_created_object_record demo_world demo_config
        (s3_record ''ObjectCreated:Put'' ''logs/trail.json.gz'')))
      = filter is_event_notification (snd (handle_created_object_record demo_world demo_config
        (s3_record ''ObjectCreated:Put'' ''logs/trail.json.gz'')))"
proof -
  have it: "iterate (events \<lparr>key = ''logs/trail.json.gz'', events = JList [demo_event]\<rparr>)
      = Inr [demo_event]" by simp
  have ok: "fst (handle_created_object_record demo_world demo_config
        (s3_record ''ObjectCreated:Put'' ''logs/trail.json.gz'')) = Inr ()"
    by (simp add: get_trail handle_created_object_record_def handle_event_def demo_config_def
      demo_run_delete demo_event_account demo_event_not_denied demo_world_posts post_message_def)
  have off: "\<not> rule_evaluation_errors_to_slack demo_config" by (simp add: demo_config_def)
  from event_notifications_bounded [OF get_trail it, of demo_config] ok off
  show ?thesis by blast
qed



lemma get_mixed:
  "get_cloudtrail_log_records demo_world (s3_record ''ObjectCreated:Put'' ''logs/mixed.json.gz'')
     = (Inr (Some \<lparr>key = ''logs/mixed.json.gz'',
          events = JList [demo_event_with_account, demo_event_without_name, demo_event]\<rparr>),
        [GetObject (JStr ''trail-bucket'') ''logs/mixed.json.gz''])"
  by (simp add: get_cloudtrail_log_records_def s3_record_def demo_world_def demo_get_object_def
      Let_def)

lemma flat_with_account:
  "flatten_json demo_event_with_account
     = [(''eventName'', JStr ''CreateUser''), (''userIdentity.accountId'', JStr ''111122223333'')]"
  by (simp add: flatten_json_def demo_event_with_account_def)

lemma handle_with_account:
  "handle_events demo_world demo_config [demo_event_with_account] ''logs/mixed.json.gz''
     = (Inr (), [Eval ''event[eventName] == DeleteBucket'' (flatten_json demo_event_with_account)])"
proof -
  have "should_message_be_processed demo_world demo_event_with_account
          [''event[eventName] == DeleteBucket''] []
      = (Inr \<lparr>should_be_processed = False, errors = []\<rparr>,
         [Eval ''event[eventName] == DeleteBucket'' (flatten_json demo_event_with_account)])"
    by (simp add: should_message_be_processed_def Let_def flat_with_account demo_world_def
        demo_eval_def)
       (simp add: demo_event_with_account_def)
  moreover have "account_id_of demo_event_with_account = Inr (JStr ''111122223333'')"
    by (simp add: account_id_of_def demo_event_with_account_def)
  ultimately show ?thesis
    by (simp add: handle_event_def demo_config_def)
qed

theorem missing_keys_abort_the_batch_witness:
  "should_message_be_processed demo_world demo_event_without_name
      (rules demo_config) (ignore_rules demo_config) = (Inl (KeyError ''eventName''), [])
   \<and> handle_events demo_world demo_config
        [demo_event_with_account, demo_event_without_name, demo_event] ''logs/mixed.json.gz''
      = (Inl (KeyError ''eventName''),
         [Eval ''event[eventName] == DeleteBucket'' (flatten_json demo_event_with_account)])
   \<and> snd (lambda_handler demo_world demo_config
        (JDict [(''Records'', JList [s3_record ''ObjectCreated:Put'' ''logs/mixed.json.gz''])]))
      = [GetObject (JStr ''trail-bucket'') ''logs/mixed.json.gz'',
         Eval ''event[eventName] == DeleteBucket'' (flatten_json demo_event_with_account),
         PostMessage (message_for_slack_error_notification (KeyError ''eventName'')
           (JDict [(''Records'', JList [s3_record ''ObjectCreated:Put'' ''logs/mixed.json.gz''])]))
           JNull]
   \<and> account_id_of demo_event = Inr (JStr [])
   \<and> list_all (posted_as (JStr []))
        (snd (handle_event demo_world reporting_config demo_event
          (JStr ''logs/trail.json.gz'') [''true'', ''event[eventName] == DeleteBucket''] []))"
proof -
  let ?rec = "s3_record ''ObjectCreated:Put'' ''logs/mixed.json.gz''"
  let ?batch = "JDict [(''Records'', JList [?rec])]"
  let ?kvs = "[(''userIdentity'', JDict [])]"
  let ?clr = "\<lparr>key = ''logs/mixed.json.gz'',
          events = JList [demo_event_with_account, demo_event_without_name, demo_event]\<rparr>"
  have missing: "''userIdentity'' \<notin> fst ` set ?kvs \<or> ''eventName'' \<notin> fst ` set ?kvs" by simp
  have which: "(if ''userIdentity'' \<notin> fst ` set ?kvs then ''userIdentity'' else ''eventName'')
      = ''eventName''" by simp
  have shape: "demo_event_without_name = JDict ?kvs" by (simp add: demo_event_without_name_def)
  have pre: "handle_events demo_world demo_config [demo_event_with_account] (key ?clr)
      = (Inr (), [Eval ''event[eventName] == DeleteBucket'' (flatten_json demo_event_with_account)])"
    using handle_with_account by simp
  have top: "getitem ?batch ''Records'' = Inr (JList [?rec]) \<and> iterate (JList [?rec]) = Inr (?rec # [])
      \<and> handle_record demo_world demo_config ?rec = handle_created_object_record demo_world demo_config ?rec
      \<and> get_cloudtrail_log_records demo_world ?rec
          = (Inr (Some ?clr), [GetObject (JStr ''trail-bucket'') ''logs/mixed.json.gz''])
      \<and> iterate (events ?clr) = Inr ([demo_event_with_account] @ JDict ?kvs # [demo_event])
      \<and> handle_events demo_world demo_config [demo_event_with_account] (key ?clr)
          = (Inr (), [Eval ''event[eventName] == DeleteBucket'' (flatten_json demo_event_with_account)])"
    using pre get_mixed by (simp add: shape) (simp add: handle_record_def s3_record_def)
  have acc: "getitem demo_event ''userIdentity'' = Inr (JDict [(''type'', JStr ''IAMUser'')])
      \<and> contains ''accountId'' (JDict [(''type'', JStr ''IAMUser'')]) = Inr False"
    by (simp add: demo_event_keys)
  note th = missing_keys_abort_the_batch [OF missing, where W = demo_world and cfg = demo_config
      and rs = "rules demo_config" and irs = "ignore_rules demo_config"
      and pre = "[demo_event_with_account]" and k = "key ?clr"
      and t = "[Eval ''event[eventName] == DeleteBucket'' (flatten_json demo_event_with_account)]"
      and post = "[demo_event]" and batch = ?batch and recs = "JList [?rec]" and rec = ?rec
      and later = "[]" and clr = ?clr
      and ?t0.0 = "[GetObject (JStr ''trail-bucket'') ''logs/mixed.json.gz'']"
      and event = demo_event and ui = "JDict [(''type'', JStr ''IAMUser'')]"]
  note th2 = missing_keys_abort_the_batch [OF missing, where W = demo_world and cfg = reporting_config
      and rs = "[''true'', ''event[eventName] == DeleteBucket'']" and irs = "[]"
      and event = demo_event and ui = "JDict [(''type'', JStr ''IAMUser'')]"
      and k' = "JStr ''logs/trail.json.gz''"]
  from th pre top acc have
    a: "should_message_be_processed demo_world (JDict ?kvs) (rules demo_config) (ignore_rules demo_config)
        = (Inl (KeyError ''eventName''), [])"
    and b: "handle_events demo_world demo_config ([demo_event_with_account] @ JDict ?kvs # [demo_event]) (key ?clr)
        = (Inl (KeyError ''eventName''),
           [Eval ''event[eventName] == DeleteBucket'' (flatten_json demo_event_with_account)])"
    and c: "snd (lambda_handler demo_world demo_config ?batch)
        = [GetObject (JStr ''trail-bucket'') ''logs/mixed.json.gz''] @
          [Eval ''event[eventName] == DeleteBucket'' (flatten_json demo_event_with_account)] @
          [PostMessage (message_for_slack_error_notification (KeyError ''eventName'') ?batch) JNull]"
    and d: "account_id_of demo_event = Inr (JStr [])"
    unfolding which by blast+
  from th2 acc have e: "\<forall>eff\<in>set (snd (handle_event demo_world reporting_config demo_event
          (JStr ''logs/trail.json.gz'') [''true'', ''event[eventName] == DeleteBucket''] [])).
        posted_as (JStr []) eff"
    by blast
  from e have f: "list_all (posted_as (JStr []))
        (snd (handle_event demo_world reporting_config demo_event
          (JStr ''logs/trail.json.gz'') [''true'', ''event[eventName] == DeleteBucket''] []))"
    by (simp only: list_all_iff)
  from a b c d f show ?thesis by (simp add: shape)
qed

end
